theory Spec2Isabelle
  imports Complex_Main "HOL-Library.AList"
begin

section \<open>Python values, errors and string primitives\<close>

text \<open>
  The codec of \<^verbatim>\<open>neurokernel/tools/graph.py\<close> moves attribute values between a
  connectivity object and a NetworkX multigraph. A value is an integer, a float or a
  string. A float is a finite value, given by the rational number it denotes, or one of
  negative zero, the two infinities and NaN. The conversion of an integer to a float
  rounds to 53 significant bits, ties to even, and overflows from \<open>2 ^ 1024\<close> on. The
  parser of float texts is a parameter \<open>fl\<close> of the decoder: it stands for the
  runtime's \<^verbatim>\<open>float()\<close> on strings, and every statement holds for any such parser.
\<close>

datatype pyfloat = Finite rat | NegZero | PosInf | NegInf | NaN

datatype pyval = PyInt int | PyFloat pyfloat | PyStr string

text \<open>
  Every failure of the source is a value. \<open>ValueError msg\<close> is a \<^verbatim>\<open>ValueError\<close> with
  that message, raised by the source itself or by \<^verbatim>\<open>int()\<close> on NaN. The remaining
  constructors are the exceptions raised by the built-ins the source calls:
  \<open>InvalidLiteral\<close> is the \<^verbatim>\<open>ValueError\<close> of \<^verbatim>\<open>int()\<close> or \<^verbatim>\<open>float()\<close> on a text
  that is no number, \<open>UnpackError\<close> the \<^verbatim>\<open>ValueError\<close> of a tuple assignment with the
  wrong number of values, \<open>EmptyMax\<close> the \<^verbatim>\<open>ValueError\<close> of \<^verbatim>\<open>max([])\<close>,
  \<open>OverflowError\<close> the failure of \<^verbatim>\<open>float()\<close> on an integer that is too large and of
  \<^verbatim>\<open>int()\<close> on an infinity, and \<open>KeyError\<close> a failed dictionary lookup.
\<close>

datatype error =
    ValueError string
  | InvalidLiteral string
  | UnpackError
  | EmptyMax
  | OverflowError
  | KeyError string

type_synonym attrs = "(string \<times> pyval) list"

definition digit_char :: "nat \<Rightarrow> char" where
  "digit_char d = ''0123456789'' ! d"

fun str_nat :: "nat \<Rightarrow> string" where
  "str_nat n = (if n < 10 then [digit_char n]
                else str_nat (n div 10) @ [digit_char (n mod 10)])"

declare str_nat.simps [simp del]

definition py_str :: "int \<Rightarrow> string" where
  \<comment> \<open>\<^verbatim>\<open>str(i)\<close> of an integer\<close>
  "py_str i = (if i < 0 then CHR ''-'' # str_nat (nat (- i)) else str_nat (nat i))"

definition is_space :: "char \<Rightarrow> bool" where
  "is_space c = (c \<in> set [CHR '' '', CHR 0x09, CHR 0x0A, CHR 0x0B, CHR 0x0C, CHR 0x0D])"

definition is_digit :: "char \<Rightarrow> bool" where
  "is_digit c = (c \<in> set ''0123456789'')"

definition digits_val :: "string \<Rightarrow> nat" where
  "digits_val ds = foldl (\<lambda>a c. 10 * a + (of_char c - 48)) 0 ds"

definition py_int_str :: "string \<Rightarrow> error + int" where
  \<comment> \<open>\<^verbatim>\<open>int(s)\<close> of a text: blanks, an optional sign, one or more decimal digits,
      blanks\<close>
  "py_int_str s =
     (let t = dropWhile is_space s;
          neg = (t \<noteq> [] \<and> hd t = CHR ''-'');
          u = (if t \<noteq> [] \<and> (hd t = CHR ''-'' \<or> hd t = CHR ''+'') then tl t else t);
          ds = takeWhile is_digit u;
          r = dropWhile is_space (dropWhile is_digit u)
      in if ds \<noteq> [] \<and> r = []
         then Inr (if neg then - int (digits_val ds) else int (digits_val ds))
         else Inl (InvalidLiteral s))"

definition py_int :: "pyval \<Rightarrow> error + int" where
  \<comment> \<open>\<^verbatim>\<open>int(v)\<close>: a finite float is truncated towards zero\<close>
  "py_int v = (case v of
       PyInt n \<Rightarrow> Inr n
     | PyFloat x \<Rightarrow>
         (case x of
            Finite r \<Rightarrow> Inr (if r < 0 then - \<lfloor>- r\<rfloor> else \<lfloor>r\<rfloor>)
          | NegZero \<Rightarrow> Inr 0
          | PosInf \<Rightarrow> Inl OverflowError
          | NegInf \<Rightarrow> Inl OverflowError
          | NaN \<Rightarrow> Inl (ValueError ''cannot convert float NaN to integer''))
     | PyStr s \<Rightarrow> py_int_str s)"

function bitlen :: "int \<Rightarrow> nat" where
  \<comment> \<open>the number of binary digits of a positive integer\<close>
  "bitlen n = (if n \<le> 0 then 0 else Suc (bitlen (n div 2)))"
  by pat_completeness auto
termination
  by (relation "measure nat") auto

declare bitlen.simps [simp del]

definition round53 :: "int \<Rightarrow> int" where
  \<comment> \<open>the nearest integer with at most 53 significant bits to a non-negative integer,
      ties to the even significand\<close>
  "round53 a =
     (let e = bitlen a - 53; q = a div 2 ^ e; r = a mod 2 ^ e
      in if e = 0 then a
         else if 2 ^ e < 2 * r \<or> (2 * r = 2 ^ e \<and> odd q) then (q + 1) * 2 ^ e
         else q * 2 ^ e)"

definition float_of_int :: "int \<Rightarrow> error + rat" where
  \<comment> \<open>\<^verbatim>\<open>float(n)\<close> of an integer: the nearest double, or \<^verbatim>\<open>OverflowError\<close>\<close>
  "float_of_int n =
     (let m = round53 \<bar>n\<bar>
      in if 2 ^ 1024 \<le> m then Inl OverflowError
         else Inr (if n < 0 then - of_int m else of_int m))"

definition py_float :: "(string \<Rightarrow> pyfloat option) \<Rightarrow> pyval \<Rightarrow> error + pyfloat" where
  \<comment> \<open>\<^verbatim>\<open>float(v)\<close>; \<open>fl\<close> is the runtime's parser of float texts\<close>
  "py_float fl v = (case v of
       PyInt n \<Rightarrow> (case float_of_int n of Inl e \<Rightarrow> Inl e | Inr r \<Rightarrow> Inr (Finite r))
     | PyFloat x \<Rightarrow> Inr x
     | PyStr s \<Rightarrow> (case fl s of None \<Rightarrow> Inl (InvalidLiteral s) | Some x \<Rightarrow> Inr x))"

definition truthy :: "pyval \<Rightarrow> bool" where
  \<comment> \<open>the truth value of \<^verbatim>\<open>if v:\<close>\<close>
  "truthy v = (case v of PyInt n \<Rightarrow> n \<noteq> 0
                        | PyFloat x \<Rightarrow> x \<noteq> Finite 0 \<and> x \<noteq> NegZero
                        | PyStr s \<Rightarrow> s \<noteq> [])"

definition eq_one :: "pyval \<Rightarrow> bool" where
  \<comment> \<open>\<^verbatim>\<open>v == 1\<close>\<close>
  "eq_one v = (case v of PyInt n \<Rightarrow> n = 1 | PyFloat x \<Rightarrow> x = Finite 1 | PyStr s \<Rightarrow> False)"

fun py_max :: "'a::linorder list \<Rightarrow> error + 'a" where
  \<comment> \<open>\<^verbatim>\<open>max(xs)\<close> raises on the empty list\<close>
  "py_max [] = Inl EmptyMax"
| "py_max (x # xs) = Inr (fold max xs x)"

fun split_on :: "char \<Rightarrow> string \<Rightarrow> string list" where
  \<comment> \<open>\<^verbatim>\<open>s.split(c)\<close> with a one-character separator\<close>
  "split_on c [] = [[]]"
| "split_on c (x # xs) =
     (if x = c then [] # split_on c xs
      else (case split_on c xs of [] \<Rightarrow> [[x]] | l # ls \<Rightarrow> (x # l) # ls))"

definition colon_positions :: "string \<Rightarrow> nat list" where
  "colon_positions l =
     filter (\<lambda>p. l ! p = CHR '':'' \<and> 1 \<le> p \<and> p + 1 < length l) [0..<length l]"

definition match_line :: "string \<Rightarrow> (string \<times> string) option" where
  \<comment> \<open>\<^verbatim>\<open>(.+):(.+)\<close> inside one line: the first group is greedy, so the groups are
      split at the last colon that has a character on both sides\<close>
  "match_line l =
     (let ps = colon_positions l
      in if ps = [] then None else Some (take (last ps) l, drop (last ps + 1) l))"

fun first_match :: "string list \<Rightarrow> (string \<times> string) option" where
  "first_match [] = None"
| "first_match (l # ls) =
     (case match_line l of Some r \<Rightarrow> Some r | None \<Rightarrow> first_match ls)"

definition re_search_label :: "string \<Rightarrow> (string \<times> string) option" where
  \<comment> \<open>\<^verbatim>\<open>re.search('(.+):(.+)', label).groups()\<close>; \<^verbatim>\<open>.\<close> does not match a newline, so
      the leftmost match lies in the first line that has one and starts that line\<close>
  "re_search_label s = first_match (split_on (CHR 0x0A) s)"

definition label :: "string \<Rightarrow> int \<Rightarrow> string" where
  \<comment> \<open>\<^verbatim>\<open>id+':'+str(i)\<close>\<close>
  "label ident i = ident @ '':'' @ py_str i"

section \<open>The NetworkX multigraph\<close>

text \<open>
  A \<^verbatim>\<open>networkx.MultiDiGraph\<close> is modelled by what the source reads and writes of it:
  \<open>node\<close> is the dictionary \<^verbatim>\<open>g.node\<close> from a node label to the node's attribute
  dictionary, and \<open>edges\<close> lists the edges, each with its two end nodes, its key among
  the parallel edges of that node pair, and its attribute dictionary. Dictionaries are
  association lists. For a graph given to the decoder the order of a list is the order
  in which the dictionary is iterated; a dictionary built by the source is listed in
  the order of insertion. Python 2 iterates in hash order; no statement below depends
  on the order of a dictionary that the source builds.
\<close>

record multidigraph =
  node :: "(string \<times> attrs) list"
  edges :: "(string \<times> string \<times> int \<times> attrs) list"

definition empty_graph :: multidigraph where
  "empty_graph = \<lparr>node = [], edges = []\<rparr>"

definition add_node :: "multidigraph \<Rightarrow> string \<Rightarrow> multidigraph" where
  "add_node g n = (if n \<in> fst ` set (node g) then g else g\<lparr>node := node g @ [(n, [])]\<rparr>)"

definition add_nodes_from :: "multidigraph \<Rightarrow> string list \<Rightarrow> multidigraph" where
  "add_nodes_from g ns = foldl add_node g ns"

definition set_node_attr :: "multidigraph \<Rightarrow> string \<Rightarrow> string \<Rightarrow> pyval \<Rightarrow> error + multidigraph" where
  \<comment> \<open>\<^verbatim>\<open>g.node[n][a] = v\<close>\<close>
  "set_node_attr g n a v =
     (case map_of (node g) n of
        None \<Rightarrow> Inl (KeyError n)
      | Some d \<Rightarrow> Inr (g\<lparr>node := AList.update n (AList.update a v d) (node g)\<rparr>))"

definition edge_dict :: "multidigraph \<Rightarrow> string \<Rightarrow> string \<Rightarrow> (int \<times> attrs) list" where
  \<comment> \<open>the key dictionary \<^verbatim>\<open>g[u][v]\<close> of the parallel edges from \<open>u\<close> to \<open>v\<close>\<close>
  "edge_dict g u v =
     map (\<lambda>(a, b, k, d). (k, d)) (filter (\<lambda>(a, b, k, d). a = u \<and> b = v) (edges g))"

function fresh_key :: "int list \<Rightarrow> int \<Rightarrow> int" where
  \<comment> \<open>\<^verbatim>\<open>while key in keydict: key += 1\<close>\<close>
  "fresh_key ks k = (if k \<in> set ks then fresh_key ks (k + 1) else k)"
  by pat_completeness auto
termination
proof (relation "measure (\<lambda>(ks, k). card {x \<in> set ks. k \<le> x})")
  show "wf (measure (\<lambda>(ks, k). card {x \<in> set ks. k \<le> x}))" by simp
next
  fix ks :: "int list" and k :: int
  assume k: "k \<in> set ks"
  have "k \<in> {x \<in> set ks. k \<le> x}" and "k \<notin> {x \<in> set ks. k + 1 \<le> x}"
    using k by simp_all
  moreover have "{x \<in> set ks. k + 1 \<le> x} \<subseteq> {x \<in> set ks. k \<le> x}"
    by auto
  ultimately have "{x \<in> set ks. k + 1 \<le> x} \<subset> {x \<in> set ks. k \<le> x}"
    by blast
  then have "card {x \<in> set ks. k + 1 \<le> x} < card {x \<in> set ks. k \<le> x}"
    by (intro psubset_card_mono) auto
  then show "((ks, k + 1), (ks, k)) \<in> measure (\<lambda>(ks, k). card {x \<in> set ks. k \<le> x})"
    by simp
qed

declare fresh_key.simps [simp del]

definition add_edge :: "multidigraph \<Rightarrow> string \<Rightarrow> string \<Rightarrow> multidigraph" where
  \<comment> \<open>\<^verbatim>\<open>g.add_edge(u, v)\<close> with no key: both nodes are added when missing, and the new
      edge gets the first unused integer key counted from the number of parallel edges\<close>
  "add_edge g u v =
     (let g' = add_node (add_node g u) v;
          ks = map fst (edge_dict g' u v)
      in g'\<lparr>edges := edges g' @ [(u, v, fresh_key ks (int (length ks)), [])]\<rparr>)"

definition set_edge_attr ::
  "multidigraph \<Rightarrow> string \<Rightarrow> string \<Rightarrow> int \<Rightarrow> string \<Rightarrow> pyval \<Rightarrow> error + multidigraph" where
  \<comment> \<open>\<^verbatim>\<open>g[u][v][key][name] = val\<close>: each of the three lookups may fail\<close>
  "set_edge_attr g u v key name val =
     (if u \<notin> fst ` set (node g) then Inl (KeyError u)
      else if edge_dict g u v = [] then Inl (KeyError v)
      else if key \<notin> fst ` set (edge_dict g u v) then Inl (KeyError (py_str key))
      else Inr (g\<lparr>edges := map (\<lambda>(a, b, k, d).
                  if a = u \<and> b = v \<and> k = key then (a, b, k, AList.update name val d)
                  else (a, b, k, d)) (edges g)\<rparr>))"

definition all_labels :: "multidigraph \<Rightarrow> string list" where
  "all_labels g =
     remdups (map fst (node g) @ concat (map (\<lambda>(a, b, k, d). [a, b]) (edges g)))"

definition is_bipartite :: "multidigraph \<Rightarrow> bool" where
  \<comment> \<open>\<^verbatim>\<open>networkx.is_bipartite(g)\<close>, by its contract: the nodes can be split in two
      sides so that every edge joins the two sides\<close>
  "is_bipartite g =
     (\<exists>S \<in> set (subseqs (all_labels g)).
        \<forall>(a, b, k, d) \<in> set (edges g). (a \<in> set S) \<noteq> (b \<in> set S))"

section \<open>The connectivity object\<close>

text \<open>
  Modelled from the spec: the classes \<^verbatim>\<open>base.BaseConnectivity\<close> and
  \<^verbatim>\<open>core.Connectivity\<close>, which the source imports and which are not part of the
  available files. The spec (sections 3, 4.1 and 6) gives the contract: two population
  ids with their sizes, \<open>N_mult\<close>, for the typed variant the counts per neuron type and
  an index-translation table from (population, type, index within the type) to the
  global index, a sparse store that is read and written at
  (source id, source index, target id, target index, slot, parameter name), and the
  enumeration of the store's keys. The source reads each key as the text
  \<^verbatim>\<open>src/dst/slot/name\<close>, which it matches against a pattern and splits at the
  slashes; the keys are kept as these texts. An entry never written reads as 0.
\<close>

type_synonym ckey = "string \<times> int \<times> string \<times> int \<times> int \<times> string"

record typed_info =
  N_A_gpot :: nat
  N_A_spike :: nat
  N_B_gpot :: nat
  N_B_spike :: nat
  idx_translate :: "string \<times> string \<times> nat \<Rightarrow> nat option"

record connectivity =
  A_id :: string
  B_id :: string
  N_A :: nat
  N_B :: nat
  N_mult :: nat
  typed :: "typed_info option"
  data_keys :: "string list"
  data :: "ckey \<Rightarrow> pyval"

definition getitem :: "connectivity \<Rightarrow> ckey \<Rightarrow> pyval" where
  \<comment> \<open>Modelled from the spec: the keyed read \<^verbatim>\<open>c[src, i, dst, j, slot, name]\<close>\<close>
  "getitem c k = data c k"

definition key_text :: "string \<Rightarrow> string \<Rightarrow> int \<Rightarrow> string \<Rightarrow> string" where
  \<comment> \<open>Modelled from the spec: the text of a key, in the form the source splits\<close>
  "key_text a b s name = a @ ''/'' @ b @ ''/'' @ py_str s @ ''/'' @ name"

definition setitem :: "connectivity \<Rightarrow> ckey \<Rightarrow> pyval \<Rightarrow> connectivity" where
  \<comment> \<open>Modelled from the spec: the keyed write \<^verbatim>\<open>c[src, i, dst, j, slot, name] = v\<close>\<close>
  "setitem c k v =
     (case k of (a, i, b, j, s, name) \<Rightarrow>
        c\<lparr>data := (data c)(k := v),
          data_keys := (if key_text a b s name \<in> set (data_keys c) then data_keys c
                        else data_keys c @ [key_text a b s name])\<rparr>)"

definition N_of :: "connectivity \<Rightarrow> string \<Rightarrow> error + nat" where
  \<comment> \<open>Modelled from the spec: \<^verbatim>\<open>c.N(id)\<close>, the size of the population with that id\<close>
  "N_of c ident =
     (if ident = A_id c then Inr (N_A c)
      else if ident = B_id c then Inr (N_B c)
      else Inl (ValueError ''invalid module ID''))"

definition BaseConnectivity :: "nat \<Rightarrow> nat \<Rightarrow> nat \<Rightarrow> string \<Rightarrow> string \<Rightarrow> connectivity" where
  \<comment> \<open>Modelled from the spec: the constructor of an empty untyped object\<close>
  "BaseConnectivity na nb nm a b =
     \<lparr>A_id = a, B_id = b, N_A = na, N_B = nb, N_mult = nm, typed = None,
      data_keys = [], data = (\<lambda>k. PyInt 0)\<rparr>"

definition interval_index ::
  "string \<Rightarrow> nat \<Rightarrow> nat \<Rightarrow> string \<Rightarrow> nat \<Rightarrow> nat \<Rightarrow> string \<times> string \<times> nat \<Rightarrow> nat option" where
  "interval_index a ag as b bg bs =
     (\<lambda>(p, ty, i).
        if ty = ''gpot'' \<and> p = a \<and> i < ag then Some i
        else if ty = ''spike'' \<and> p = a \<and> i < as then Some (ag + i)
        else if ty = ''gpot'' \<and> p = b \<and> i < bg then Some i
        else if ty = ''spike'' \<and> p = b \<and> i < bs then Some (bg + i)
        else None)"

definition Connectivity ::
  "nat \<Rightarrow> nat \<Rightarrow> nat \<Rightarrow> nat \<Rightarrow> nat \<Rightarrow> string \<Rightarrow> string \<Rightarrow> connectivity" where
  \<comment> \<open>Modelled from the spec: the constructor of an empty typed object; its
      translation table puts the graded-potential units first\<close>
  "Connectivity ag as bg bs nm a b =
     \<lparr>A_id = a, B_id = b, N_A = ag + as, N_B = bg + bs, N_mult = nm,
      typed = Some \<lparr>N_A_gpot = ag, N_A_spike = as, N_B_gpot = bg, N_B_spike = bs,
                    idx_translate = interval_index a ag as b bg bs\<rparr>,
      data_keys = [], data = (\<lambda>k. PyInt 0)\<rparr>"

section \<open>\<^verbatim>\<open>conn_to_graph\<close>\<close>

fun set_types ::
  "(string \<times> string \<times> nat \<Rightarrow> nat option) \<Rightarrow> string \<Rightarrow> string \<Rightarrow> nat list \<Rightarrow> multidigraph
     \<Rightarrow> error + multidigraph" where
  \<comment> \<open>\<^verbatim>\<open>for i in xrange(n): g.node[id+':'+str(c.idx_translate[id][ty, i])]['neuron_type'] = ty\<close>\<close>
  "set_types tr ident ty [] g = Inr g"
| "set_types tr ident ty (i # is) g =
     (case tr (ident, ty, i) of
        None \<Rightarrow> Inl (KeyError ty)
      | Some n \<Rightarrow>
          (case set_node_attr g (label ident (int n)) ''neuron_type'' (PyStr ty) of
             Inl e \<Rightarrow> Inl e
           | Inr g' \<Rightarrow> set_types tr ident ty is g'))"

definition tag_nodes :: "connectivity \<Rightarrow> multidigraph \<Rightarrow> error + multidigraph" where
  \<comment> \<open>the four tagging loops, run only for a typed object\<close>
  "tag_nodes c g =
     (case typed c of
        None \<Rightarrow> Inr g
      | Some t \<Rightarrow>
          (case set_types (idx_translate t) (A_id c) ''gpot'' [0..<N_A_gpot t] g of
             Inl e \<Rightarrow> Inl e
           | Inr g1 \<Rightarrow>
          (case set_types (idx_translate t) (B_id c) ''gpot'' [0..<N_B_gpot t] g1 of
             Inl e \<Rightarrow> Inl e
           | Inr g2 \<Rightarrow>
          (case set_types (idx_translate t) (A_id c) ''spike'' [0..<N_A_spike t] g2 of
             Inl e \<Rightarrow> Inl e
           | Inr g3 \<Rightarrow>
              set_types (idx_translate t) (B_id c) ''spike'' [0..<N_B_spike t] g3))))"

definition ends_with :: "string \<Rightarrow> string \<Rightarrow> bool" where
  "ends_with suffix k =
     (length suffix \<le> length k \<and> drop (length k - length suffix) k = suffix)"

definition match_conn :: "string \<Rightarrow> bool" where
  \<comment> \<open>\<^verbatim>\<open>re.match('.*\/conn$', k)\<close>: \<^verbatim>\<open>.*\<close> crosses no newline, and \<^verbatim>\<open>$\<close> matches at
      the end of the text and before a newline that ends it\<close>
  "match_conn k =
     ((ends_with ''/conn'' k \<and> CHR 0x0A \<notin> set (take (length k - 5) k)) \<or>
      (ends_with (''/conn'' @ [CHR 0x0A]) k \<and> CHR 0x0A \<notin> set (take (length k - 6) k)))"

definition unpack4 :: "string list \<Rightarrow> error + string \<times> string \<times> string \<times> string" where
  \<comment> \<open>\<^verbatim>\<open>w, x, y, z = parts\<close>\<close>
  "unpack4 parts = (case parts of [w, x, y, z] \<Rightarrow> Inr (w, x, y, z) | _ \<Rightarrow> Inl UnpackError)"

definition parse_key :: "string \<Rightarrow> error + string \<times> string \<times> int \<times> string" where
  \<comment> \<open>\<^verbatim>\<open>A_id, B_id, conn, name = key.split('/'); conn = int(conn)\<close>\<close>
  "parse_key key =
     (case unpack4 (split_on CHR ''/'' key) of
        Inl e \<Rightarrow> Inl e
      | Inr (a, b, st, name) \<Rightarrow>
          (case py_int_str st of Inl e \<Rightarrow> Inl e | Inr s \<Rightarrow> Inr (a, b, s, name)))"

fun add_conn_edges ::
  "connectivity \<Rightarrow> string \<Rightarrow> string \<Rightarrow> int \<Rightarrow> string \<Rightarrow> (nat \<times> nat) list \<Rightarrow> multidigraph
     \<Rightarrow> multidigraph" where
  \<comment> \<open>\<^verbatim>\<open>for i, j in itertools.product(...)\<close>: an edge for every set flag; the typed and
      the untyped branch of the source read the same entry, the typed one under the
      type selector \<^verbatim>\<open>'all'\<close>\<close>
  "add_conn_edges c a b s name [] g = g"
| "add_conn_edges c a b s name ((i, j) # ps) g =
     add_conn_edges c a b s name ps
       (if eq_one (getitem c (a, int i, b, int j, s, name))
        then add_edge g (label a (int i)) (label b (int j)) else g)"

fun create_edges :: "connectivity \<Rightarrow> string list \<Rightarrow> multidigraph \<Rightarrow> error + multidigraph" where
  \<comment> \<open>the loop over the keys that match \<^verbatim>\<open>.*\/conn$\<close>\<close>
  "create_edges c [] g = Inr g"
| "create_edges c (key # ks) g =
     (case parse_key key of
        Inl e \<Rightarrow> Inl e
      | Inr (a, b, s, name) \<Rightarrow>
          (case N_of c a of
             Inl e \<Rightarrow> Inl e
           | Inr na \<Rightarrow>
               (case N_of c b of
                  Inl e \<Rightarrow> Inl e
                | Inr nb \<Rightarrow>
                    create_edges c ks
                      (add_conn_edges c a b s name (List.product [0..<na] [0..<nb]) g))))"

fun set_conn_attrs ::
  "connectivity \<Rightarrow> string \<Rightarrow> string \<Rightarrow> int \<Rightarrow> string \<Rightarrow> (nat \<times> nat) list \<Rightarrow> multidigraph
     \<Rightarrow> error + multidigraph" where
  "set_conn_attrs c a b s name [] g = Inr g"
| "set_conn_attrs c a b s name ((i, j) # ps) g =
     (if truthy (getitem c (a, int i, b, int j, s, name))
      then (case set_edge_attr g (label a (int i)) (label b (int j)) s name
                    (getitem c (a, int i, b, int j, s, name)) of
              Inl e \<Rightarrow> Inl e
            | Inr g' \<Rightarrow> set_conn_attrs c a b s name ps g')
      else set_conn_attrs c a b s name ps g)"

fun set_attributes :: "connectivity \<Rightarrow> string list \<Rightarrow> multidigraph \<Rightarrow> error + multidigraph" where
  \<comment> \<open>the loop over the keys that do not match \<^verbatim>\<open>.*\/conn$\<close>\<close>
  "set_attributes c [] g = Inr g"
| "set_attributes c (key # ks) g =
     (case parse_key key of
        Inl e \<Rightarrow> Inl e
      | Inr (a, b, s, name) \<Rightarrow>
          (case N_of c a of
             Inl e \<Rightarrow> Inl e
           | Inr na \<Rightarrow>
               (case N_of c b of
                  Inl e \<Rightarrow> Inl e
                | Inr nb \<Rightarrow>
                    (case set_conn_attrs c a b s name (List.product [0..<na] [0..<nb]) g of
                       Inl e \<Rightarrow> Inl e
                     | Inr g' \<Rightarrow> set_attributes c ks g'))))"

definition initial_nodes :: "connectivity \<Rightarrow> multidigraph" where
  "initial_nodes c =
     add_nodes_from
       (add_nodes_from empty_graph (map (\<lambda>i. label (A_id c) (int i)) [0..<N_A c]))
       (map (\<lambda>i. label (B_id c) (int i)) [0..<N_B c])"

definition conn_to_graph :: "connectivity \<Rightarrow> error + multidigraph" where
  "conn_to_graph c =
     (case tag_nodes c (initial_nodes c) of
        Inl e \<Rightarrow> Inl e
      | Inr g1 \<Rightarrow>
          (case create_edges c (filter match_conn (data_keys c)) g1 of
             Inl e \<Rightarrow> Inl e
           | Inr g2 \<Rightarrow>
               set_attributes c (filter (\<lambda>k. \<not> match_conn k) (data_keys c)) g2))"

section \<open>\<^verbatim>\<open>graph_to_conn\<close>\<close>

datatype conn_type = BaseConnectivityT | ConnectivityT

definition nodes :: "multidigraph \<Rightarrow> string list" where
  \<comment> \<open>\<^verbatim>\<open>g.nodes()\<close>\<close>
  "nodes g = map fst (node g)"

definition parse_label :: "string \<Rightarrow> error + string \<times> int" where
  \<comment> \<open>what one round of the loop over the nodes reads from a label: the two groups of
      the pattern, the second one as an integer\<close>
  "parse_label l =
     (case re_search_label l of
        None \<Rightarrow> Inl (ValueError (''incorrectly formatted node label: '' @ l))
      | Some (ident, n) \<Rightarrow>
          (case py_int_str n of Inl e \<Rightarrow> Inl e | Inr k \<Rightarrow> Inr (ident, k)))"

fun parse_labels ::
  "string list \<Rightarrow> (string \<times> int list) list \<Rightarrow> error + (string \<times> int list) list" where
  \<comment> \<open>the loop that fills \<^verbatim>\<open>node_dict\<close>: population id to the set of its indices\<close>
  "parse_labels [] nd = Inr nd"
| "parse_labels (l # ls) nd =
     (case parse_label l of
        Inl e \<Rightarrow> Inl e
      | Inr (ident, k) \<Rightarrow>
          parse_labels ls
            (AList.update ident
               (List.insert k (case map_of nd ident of None \<Rightarrow> [] | Some s \<Rightarrow> s)) nd))"

definition py_range :: "int \<Rightarrow> int list" where
  "py_range m = map int [0..<nat m]"

definition consecutive :: "int list \<Rightarrow> error + bool" where
  \<comment> \<open>\<^verbatim>\<open>set(range(max(s)+1)) == s\<close>\<close>
  "consecutive s =
     (case py_max s of Inl e \<Rightarrow> Inl e | Inr m \<Rightarrow> Inr (set (py_range (m + 1)) = set s))"

fun count_types ::
  "multidigraph \<Rightarrow> string \<Rightarrow> int list \<Rightarrow> nat \<times> nat \<Rightarrow> error + nat \<times> nat" where
  "count_types g ident [] acc = Inr acc"
| "count_types g ident (n # ns) (gp, sp) =
     (case map_of (node g) (label ident n) of
        None \<Rightarrow> Inl (KeyError (label ident n))
      | Some d \<Rightarrow>
          (case map_of d ''neuron_type'' of
             None \<Rightarrow> Inl (KeyError ''neuron_type'')
           | Some v \<Rightarrow>
               if v = PyStr ''gpot'' then count_types g ident ns (gp + 1, sp)
               else if v = PyStr ''spike'' then count_types g ident ns (gp, sp + 1)
               else Inl (ValueError ''invalid neuron type'')))"

definition edge_pairs :: "multidigraph \<Rightarrow> (string \<times> string) list" where
  \<comment> \<open>\<^verbatim>\<open>g.edges()\<close>: one pair of end nodes for every edge\<close>
  "edge_pairs g = map (\<lambda>(a, b, k, d). (a, b)) (edges g)"

definition validate :: "multidigraph \<Rightarrow> conn_type \<Rightarrow> error + connectivity" where
  \<comment> \<open>everything \<^verbatim>\<open>graph_to_conn\<close> does up to and including the creation of the empty
      connectivity object\<close>
  "validate g ct =
     (if \<not> is_bipartite g then Inl (ValueError ''graph must be bipartite'')
      else
        (case parse_labels (nodes g) [] of
           Inl e \<Rightarrow> Inl e
         | Inr nd \<Rightarrow>
             (case nd of
                [(a, sa), (b, sb)] \<Rightarrow>
                  (case consecutive sa of
                     Inl e \<Rightarrow> Inl e
                   | Inr False \<Rightarrow>
                       Inl (ValueError ''nodes must be numbered consecutively from 0..N'')
                   | Inr True \<Rightarrow>
                  (case consecutive sb of
                     Inl e \<Rightarrow> Inl e
                   | Inr False \<Rightarrow>
                       Inl (ValueError ''nodes must be numbered consecutively from 0..N'')
                   | Inr True \<Rightarrow>
                  (case (if ct = ConnectivityT
                         then (case count_types g a sa (0, 0) of
                                 Inl e \<Rightarrow> Inl e
                               | Inr ca \<Rightarrow>
                                   (case count_types g b sb (0, 0) of
                                      Inl e \<Rightarrow> Inl e
                                    | Inr cb \<Rightarrow> Inr (Some (ca, cb))))
                         else Inr None) of
                     Inl e \<Rightarrow> Inl e
                   | Inr counts \<Rightarrow>
                  (case py_max (map (\<lambda>(u, v). length (edge_dict g u v))
                                   (remdups (edge_pairs g))) of
                     Inl e \<Rightarrow> Inl e
                   | Inr nm \<Rightarrow>
                       Inr (case counts of
                              None \<Rightarrow> BaseConnectivity (length sa) (length sb) nm a b
                            | Some ((ag, as), (bg, bs)) \<Rightarrow>
                                Connectivity ag as bg bs nm a b)))))
              | _ \<Rightarrow> Inl (ValueError ''incorrectly formatted graph''))))"

fun set_params ::
  "(string \<Rightarrow> pyfloat option) \<Rightarrow> string \<times> int \<times> string \<times> int \<times> nat \<Rightarrow> attrs \<Rightarrow> string list
     \<Rightarrow> connectivity \<Rightarrow> error + connectivity" where
  \<comment> \<open>\<^verbatim>\<open>for param in edge_dict[k].keys()\<close>\<close>
  "set_params fl q d [] c = Inr c"
| "set_params fl (a, i, b, j, s) d (param # ps) c =
     (case map_of d param of
        None \<Rightarrow> Inl (KeyError param)
      | Some v \<Rightarrow>
          (if param = ''id''
           then (case py_int v of
                   Inl e \<Rightarrow> Inl e
                 | Inr n \<Rightarrow>
                     set_params fl (a, i, b, j, s) d ps
                       (setitem c (a, i, b, j, int s, param) (PyInt n)))
           else (case py_float fl v of
                   Inl e \<Rightarrow> Inl e
                 | Inr r \<Rightarrow>
                     set_params fl (a, i, b, j, s) d ps
                       (setitem c (a, i, b, j, int s, param) (PyFloat r)))))"

fun set_conns ::
  "(string \<Rightarrow> pyfloat option) \<Rightarrow> string \<times> int \<times> string \<times> int \<Rightarrow> (int \<times> attrs) list
     \<Rightarrow> (nat \<times> int) list \<Rightarrow> connectivity \<Rightarrow> error + connectivity" where
  \<comment> \<open>\<^verbatim>\<open>for conn, k in enumerate(edge_dict.keys())\<close>\<close>
  "set_conns fl q ed [] c = Inr c"
| "set_conns fl (a, i, b, j) ed ((s, k) # rest) c =
     (case map_of ed k of
        None \<Rightarrow> Inl (KeyError (py_str k))
      | Some d \<Rightarrow>
          (case set_params fl (a, i, b, j, s) d (map fst d)
                  (setitem c (a, i, b, j, int s, ''conn'') (PyInt 1)) of
             Inl e \<Rightarrow> Inl e
           | Inr c' \<Rightarrow> set_conns fl (a, i, b, j) ed rest c'))"

definition unpack2 :: "string list \<Rightarrow> error + string \<times> string" where
  \<comment> \<open>\<^verbatim>\<open>x, y = parts\<close>\<close>
  "unpack2 parts = (case parts of [x, y] \<Rightarrow> Inr (x, y) | _ \<Rightarrow> Inl UnpackError)"

definition parse_end :: "string \<Rightarrow> error + string \<times> int" where
  \<comment> \<open>\<^verbatim>\<open>id, i = label.split(':'); i = int(i)\<close>\<close>
  "parse_end u =
     (case unpack2 (split_on CHR '':'' u) of
        Inl e \<Rightarrow> Inl e
      | Inr (a, si) \<Rightarrow> (case py_int_str si of Inl e \<Rightarrow> Inl e | Inr i \<Rightarrow> Inr (a, i)))"

fun set_edges ::
  "(string \<Rightarrow> pyfloat option) \<Rightarrow> multidigraph \<Rightarrow> (string \<times> string) list \<Rightarrow> connectivity
     \<Rightarrow> error + connectivity" where
  \<comment> \<open>\<^verbatim>\<open>for edge in g.edges()\<close>; the typed and the untyped branch of the source write
      the same entries, the typed one under the type selector \<^verbatim>\<open>'all'\<close>\<close>
  "set_edges fl g [] c = Inr c"
| "set_edges fl g ((u, v) # es) c =
     (case parse_end u of
        Inl e \<Rightarrow> Inl e
      | Inr (a, i) \<Rightarrow>
          (case parse_end v of
             Inl e \<Rightarrow> Inl e
           | Inr (b, j) \<Rightarrow>
               (case set_conns fl (a, i, b, j) (edge_dict g u v)
                       (enumerate 0 (map fst (edge_dict g u v))) c of
                  Inl e \<Rightarrow> Inl e
                | Inr c' \<Rightarrow> set_edges fl g es c')))"

definition graph_to_conn ::
  "(string \<Rightarrow> pyfloat option) \<Rightarrow> multidigraph \<Rightarrow> conn_type \<Rightarrow> error + connectivity" where
  "graph_to_conn fl g ct =
     (case validate g ct of
        Inl e \<Rightarrow> Inl e
      | Inr c \<Rightarrow> set_edges fl g (edge_pairs g) c)"

section \<open>The validation rules, stated on the graph\<close>

text \<open>
  The rules of the spec's validator, stated on the node labels alone and independently
  of the loop that fills \<^verbatim>\<open>node_dict\<close>: which labels parse, which population ids
  occur, which indices each population has, and whether they leave a gap.
\<close>

definition label_ok :: "string \<Rightarrow> bool" where
  "label_ok l = (case parse_label l of Inl e \<Rightarrow> False | Inr pk \<Rightarrow> True)"

definition parsed_labels :: "string list \<Rightarrow> (string \<times> int) list" where
  "parsed_labels ls =
     concat (map (\<lambda>l. case parse_label l of Inl e \<Rightarrow> [] | Inr pk \<Rightarrow> [pk]) ls)"

definition prefixes :: "multidigraph \<Rightarrow> string list" where
  "prefixes g = remdups (map fst (parsed_labels (nodes g)))"

definition indices :: "multidigraph \<Rightarrow> string \<Rightarrow> int list" where
  "indices g p = map snd (filter (\<lambda>pk. fst pk = p) (parsed_labels (nodes g)))"

definition gap :: "int list \<Rightarrow> bool" where
  "gap ns = (set ns \<noteq> {0..Max (set ns)})"



definition idx_set :: "(string \<times> int list) list \<Rightarrow> string \<Rightarrow> int set" where
  "idx_set nd p = (case map_of nd p of None \<Rightarrow> {} | Some s \<Rightarrow> set s)"

definition no_float :: "string \<Rightarrow> pyfloat option" where
  \<comment> \<open>a float parser that accepts nothing, for examples without float texts\<close>
  "no_float s = None"

section \<open>Well-formed typed objects\<close>









section \<open>Well-formed input graphs\<close>

text \<open>
  What the statements about the decoder ask of a graph beyond passing its checks. A
  node label is canonical when it is its population id, a colon and the decimal
  rendering of its index, so that splitting it at the colon and reading the index
  gives the label back; two canonical labels that parse alike are the same label. An
  attribute is coercible when \<^verbatim>\<open>int()\<close> accepts its value under the name \<^verbatim>\<open>id\<close> and
  \<^verbatim>\<open>float()\<close> accepts it under any other name. The association lists of a graph are
  dictionaries when the keys of the parallel edges of a node pair are distinct and
  the names in an attribute dictionary are distinct.
\<close>

definition coerce :: "(string \<Rightarrow> pyfloat option) \<Rightarrow> string \<Rightarrow> pyval \<Rightarrow> error + pyval" where
  "coerce fl name v =
     (if name = ''id'' then (case py_int v of Inl e \<Rightarrow> Inl e | Inr n \<Rightarrow> Inr (PyInt n))
      else (case py_float fl v of Inl e \<Rightarrow> Inl e | Inr r \<Rightarrow> Inr (PyFloat r)))"

definition canonical :: "string \<Rightarrow> bool" where
  "canonical l = (case parse_end l of Inl e \<Rightarrow> False | Inr (a, i) \<Rightarrow> l = label a i)"

definition canonical_ends :: "multidigraph \<Rightarrow> bool" where
  "canonical_ends g = list_all (\<lambda>(u, v, k, d). canonical u \<and> canonical v) (edges g)"





text \<open>
  The entries the population loop writes for one node pair. \<open>dict_coercible fl d\<close>
  holds when every lookup of the loop over the names of \<open>d\<close> finds a value that can be
  coerced; \<open>slots_ok\<close> and \<open>pair_ok\<close> say so for the slots of a key dictionary and for
  all parallel edges of a node pair. \<open>written fl ed ps s name\<close> is the value stored at
  slot \<open>s\<close> under \<open>name\<close> when the slots \<open>ps\<close> of the key dictionary \<open>ed\<close> are processed,
  if any: the coerced attribute, or the flag 1 under \<^verbatim>\<open>conn\<close> when the edge has no
  attribute of that name.
\<close>

definition dict_coercible :: "(string \<Rightarrow> pyfloat option) \<Rightarrow> attrs \<Rightarrow> bool" where
  "dict_coercible fl d =
     list_all (\<lambda>name. case map_of d name of
                         None \<Rightarrow> False
                       | Some v \<Rightarrow> \<not> isl (coerce fl name v)) (map fst d)"

definition slots_ok ::
  "(string \<Rightarrow> pyfloat option) \<Rightarrow> (int \<times> attrs) list \<Rightarrow> (nat \<times> int) list \<Rightarrow> bool" where
  "slots_ok fl ed ps =
     list_all (\<lambda>(s, k). case map_of ed k of None \<Rightarrow> False | Some d \<Rightarrow> dict_coercible fl d) ps"

definition pair_ok :: "(string \<Rightarrow> pyfloat option) \<Rightarrow> multidigraph \<Rightarrow> string \<Rightarrow> string \<Rightarrow> bool" where
  "pair_ok fl g u v =
     slots_ok fl (edge_dict g u v) (enumerate 0 (map fst (edge_dict g u v)))"

definition val_of :: "(string \<Rightarrow> pyfloat option) \<Rightarrow> attrs \<Rightarrow> string \<Rightarrow> pyval" where
  "val_of fl d name =
     (case map_of d name of
        None \<Rightarrow> PyInt 0
      | Some v \<Rightarrow> (case coerce fl name v of Inl e \<Rightarrow> PyInt 0 | Inr x \<Rightarrow> x))"

definition slot_val :: "(string \<Rightarrow> pyfloat option) \<Rightarrow> attrs \<Rightarrow> string \<Rightarrow> pyval option" where
  "slot_val fl d name =
     (if name \<in> fst ` set d then Some (val_of fl d name)
      else if name = ''conn'' then Some (PyInt 1) else None)"

definition written :: "(string \<Rightarrow> pyfloat option) \<Rightarrow> (int \<times> attrs) list \<Rightarrow> (nat \<times> int) list
    \<Rightarrow> nat \<Rightarrow> string \<Rightarrow> pyval option" where
  "written fl ed ps s name =
     (case map_of ps s of
        None \<Rightarrow> None
      | Some k \<Rightarrow> (case map_of ed k of None \<Rightarrow> None | Some d \<Rightarrow> slot_val fl d name))"

definition pair_written ::
  "(string \<Rightarrow> pyfloat option) \<Rightarrow> multidigraph \<Rightarrow> string \<Rightarrow> string \<Rightarrow> nat \<Rightarrow> string \<Rightarrow> pyval option" where
  "pair_written fl g u v s name =
     written fl (edge_dict g u v) (enumerate 0 (map fst (edge_dict g u v))) s name"









section \<open>Example graphs\<close>


definition triangle :: multidigraph where
  "triangle =
     \<lparr>node = [(''A:0'', []), (''B:0'', []), (''C:0'', [])],
      edges = [(''A:0'', ''B:0'', 0, []), (''B:0'', ''C:0'', 0, []), (''C:0'', ''A:0'', 0, [])]\<rparr>"

definition three_prefixes :: multidigraph where
  "three_prefixes = \<lparr>node = [(''A:0'', []), (''B:0'', []), (''C:0'', [])], edges = []\<rparr>"

definition gap_one_population :: multidigraph where
  "gap_one_population = \<lparr>node = [(''A:0'', []), (''A:2'', [])], edges = []\<rparr>"

definition gap_two_populations :: multidigraph where
  "gap_two_populations = \<lparr>node = [(''A:0'', []), (''A:2'', []), (''B:0'', [])], edges = []\<rparr>"


definition negative_index :: multidigraph where
  "negative_index = \<lparr>node = [(''A:-1'', []), (''B:0'', [])], edges = []\<rparr>"

definition bad_label :: multidigraph where
  "bad_label = \<lparr>node = [(''A:0'', []), (''B'', []), (''C:5'', [])], edges = []\<rparr>"


section \<open>Evaluation helpers\<close>

lemma sum_eq_InlI: "isl r \<Longrightarrow> projl r = e \<Longrightarrow> r = Inl e"
  by (cases r) auto

section \<open>Graphs without edges\<close>

text \<open>
  Claim C4 (multiplicity inference). The claim has two halves: \<open>N_mult\<close> of the decoded
  model is the largest number of parallel edges of a node pair, and a graph with no
  edge decodes to a model with \<open>N_mult = 1\<close>. The source computes
  \<^verbatim>\<open>max([len(g[u][v]) for u,v in set(g.edges())])\<close> with no case for the empty list:
  on the graph with the two nodes \<^verbatim>\<open>A:0\<close> and \<^verbatim>\<open>B:0\<close> and no edge every check
  passes and \<^verbatim>\<open>max\<close> raises, so no model is returned.
\<close>

theorem graph_to_conn_edgeless_raises:
  "graph_to_conn fl \<lparr>node = [(''A:0'', []), (''B:0'', [])], edges = []\<rparr> BaseConnectivityT
     = Inl EmptyMax"
  by (rule sum_eq_InlI; code_simp)

text \<open>
  Claim C1 (round trip). Encoding the freshly constructed model with one unit in each
  population and no connection gives the graph with the nodes \<^verbatim>\<open>A:0\<close> and \<^verbatim>\<open>B:0\<close>
  and no edge; decoding that graph raises instead of returning a model with the sizes
  of the original.
\<close>

theorem roundtrip_edgeless_raises:
  "conn_to_graph (BaseConnectivity 1 1 1 ''A'' ''B'') =
     Inr \<lparr>node = [(''A:0'', []), (''B:0'', [])], edges = []\<rparr> \<and>
   (case conn_to_graph (BaseConnectivity 1 1 1 ''A'' ''B'') of
      Inl e \<Rightarrow> Inl e
    | Inr g \<Rightarrow> graph_to_conn fl g BaseConnectivityT) = Inl EmptyMax"
proof -
  have enc: "conn_to_graph (BaseConnectivity 1 1 1 ''A'' ''B'') =
     Inr \<lparr>node = [(''A:0'', []), (''B:0'', [])], edges = []\<rparr>"
    by code_simp
  have dec: "graph_to_conn fl \<lparr>node = [(''A:0'', []), (''B:0'', [])], edges = []\<rparr>
      BaseConnectivityT = Inl EmptyMax"
    by (rule sum_eq_InlI; code_simp)
  show ?thesis
    unfolding enc by (simp add: dec)
qed

section \<open>Parameters without a connection\<close>

text \<open>
  Claim C2 (edges and attributes follow the presence flag). The source adds an edge
  for every set \<^verbatim>\<open>conn\<close> flag without passing the slot as the edge key, and copies a
  parameter whenever the parameter's own value is true, addressing the edge by the
  slot. A model with \<^verbatim>\<open>weight = 0.5\<close> at a triple whose \<^verbatim>\<open>conn\<close> flag is not set
  has no edge to address: encoding raises \<^verbatim>\<open>KeyError\<close> instead of returning a graph
  without that attribute. And a model whose only flag sits at slot 1 gets an edge with
  key 0, the slot whose flag is not set.
\<close>

theorem conn_to_graph_orphan_raises:
  "conn_to_graph
     (setitem (BaseConnectivity 1 1 1 ''A'' ''B'')
        (''A'', 0, ''B'', 0, 0, ''weight'') (PyFloat (Finite (1 / 2))))
     = Inl (KeyError ''B:0'') \<and>
   conn_to_graph
     (setitem (BaseConnectivity 1 1 2 ''A'' ''B'')
        (''A'', 0, ''B'', 0, 1, ''conn'') (PyInt 1))
     = Inr \<lparr>node = [(''A:0'', []), (''B:0'', [])], edges = [(''A:0'', ''B:0'', 0, [])]\<rparr>"
  by code_simp

section \<open>Rendering of integers and node labels\<close>













section \<open>Nodes and their type tags\<close>















section \<open>The later loops keep the node dictionary\<close>










section \<open>The loop over the node labels\<close>

lemma label_ok_iff: "label_ok l \<longleftrightarrow> (\<exists>p k. parse_label l = Inr (p, k))"
  by (cases "parse_label l") (auto simp: label_ok_def)

lemma if_Inr_Inl: "(if c then Inr x else Inl y) = Inl e \<Longrightarrow> e = y"
  by (simp split: if_splits)

lemma py_int_str_Inl: "py_int_str n = Inl e \<Longrightarrow> e = InvalidLiteral n"
  unfolding py_int_str_def Let_def by (rule if_Inr_Inl)

lemma parse_label_error:
  "\<not> label_ok l \<Longrightarrow>
   parse_label l = Inl (case re_search_label l of
                          None \<Rightarrow> ValueError (''incorrectly formatted node label: '' @ l)
                        | Some (p, n) \<Rightarrow> InvalidLiteral n)"
proof (cases "re_search_label l")
  case None
  then show ?thesis by (simp add: parse_label_def)
next
  case (Some pn)
  obtain p n where pn: "pn = (p, n)" by (cases pn)
  assume "\<not> label_ok l"
  then obtain e where e: "py_int_str n = Inl e"
    using Some pn by (cases "py_int_str n") (auto simp: label_ok_def parse_label_def)
  then have "e = InvalidLiteral n" by (rule py_int_str_Inl)
  then show ?thesis using Some pn e by (simp add: parse_label_def)
qed

lemma parsed_labels_Cons:
  "parse_label l = Inr pk \<Longrightarrow> parsed_labels (l # ls) = pk # parsed_labels ls"
  by (simp add: parsed_labels_def)

lemma parse_labels_first_error:
  assumes "list_all label_ok ls1" and "parse_label l = Inl e"
  shows "parse_labels (ls1 @ l # ls2) nd = Inl e"
  using assms
proof (induction ls1 arbitrary: nd)
  case Nil
  then show ?case by simp
next
  case (Cons x xs)
  from Cons.prems(1) obtain p k where "parse_label x = Inr (p, k)"
    by (auto simp: label_ok_iff)
  moreover have "list_all label_ok xs" using Cons.prems(1) by simp
  ultimately show ?case using Cons.IH Cons.prems(2) by simp
qed

lemma idx_set_update:
  "idx_set (AList.update p s nd) q = (if q = p then set s else idx_set nd q)"
  by (simp add: idx_set_def AList.update_conv')

lemma parse_labels_Inr:
  assumes "list_all label_ok ls"
  shows "\<exists>nd'. parse_labels ls nd = Inr nd' \<and>
           fst ` set nd' = fst ` set nd \<union> fst ` set (parsed_labels ls) \<and>
           (distinct (map fst nd) \<longrightarrow> distinct (map fst nd')) \<and>
           (\<forall>p. idx_set nd' p = idx_set nd p \<union> {k. (p, k) \<in> set (parsed_labels ls)})"
  using assms
proof (induction ls arbitrary: nd)
  case Nil
  then show ?case by (simp add: parsed_labels_def)
next
  case (Cons l ls)
  from Cons.prems obtain p k where pk: "parse_label l = Inr (p, k)"
    by (auto simp: label_ok_iff)
  let ?s = "List.insert k (case map_of nd p of None \<Rightarrow> [] | Some s \<Rightarrow> s)"
  let ?nd1 = "AList.update p ?s nd"
  have ok: "list_all label_ok ls" using Cons.prems by simp
  from Cons.IH[OF ok, of ?nd1] obtain nd' where
    run: "parse_labels ls ?nd1 = Inr nd'"
    and dom: "fst ` set nd' = fst ` set ?nd1 \<union> fst ` set (parsed_labels ls)"
    and dist: "distinct (map fst ?nd1) \<longrightarrow> distinct (map fst nd')"
    and idx: "\<forall>q. idx_set nd' q = idx_set ?nd1 q \<union> {k. (q, k) \<in> set (parsed_labels ls)}"
    by blast
  have s: "set ?s = insert k (idx_set nd p)"
    by (simp add: idx_set_def split: option.splits)
  have i1: "idx_set ?nd1 q = (if q = p then insert k (idx_set nd p) else idx_set nd q)" for q
    by (simp only: idx_set_update s)
  have "parse_labels (l # ls) nd = Inr nd'"
    by (simp add: pk run)
  moreover have "fst ` set nd' = fst ` set nd \<union> fst ` set (parsed_labels (l # ls))"
    by (auto simp: dom parsed_labels_Cons[OF pk] AList.dom_update)
  moreover have "distinct (map fst nd) \<longrightarrow> distinct (map fst nd')"
    using dist by (simp add: AList.distinct_update)
  moreover have "\<forall>q. idx_set nd' q =
      idx_set nd q \<union> {k. (q, k) \<in> set (parsed_labels (l # ls))}"
    by (auto simp: idx i1 parsed_labels_Cons[OF pk])
  ultimately show ?case by blast
qed

lemma py_max_Max:
  assumes "s \<noteq> []"
  shows "py_max s = Inr (Max (set s))"
proof (cases s)
  case Nil
  with assms show ?thesis by simp
next
  case (Cons x xs)
  show ?thesis
    unfolding Cons py_max.simps Max.set_eq_fold by (rule refl)
qed

lemma set_py_range: "set (py_range (m + 1)) = {0..m}"
proof -
  have "set (py_range (m + 1)) = int ` {0..<nat (m + 1)}"
    by (simp add: py_range_def)
  also have "\<dots> = {0..m}"
  proof (cases "0 \<le> m")
    case True
    have "int ` {0..<nat (m + 1)} = {int 0..<int (nat (m + 1))}"
      by (rule image_int_atLeastLessThan)
    also have "\<dots> = {0..m}" using True by auto
    finally show ?thesis .
  next
    case False
    then show ?thesis by simp
  qed
  finally show ?thesis .
qed

lemma consecutive_gap: "s \<noteq> [] \<Longrightarrow> consecutive s = Inr (\<not> gap s)"
  by (auto simp: consecutive_def py_max_Max set_py_range gap_def)

lemma gap_cong: "set s = set s' \<Longrightarrow> gap s = gap s'"
  by (simp add: gap_def)

section \<open>The checks in order\<close>


lemma validate_label_error:
  assumes "is_bipartite g" and "nodes g = ls1 @ l # ls2" and "list_all label_ok ls1"
    and "\<not> label_ok l"
  shows "validate g ct =
           Inl (case re_search_label l of
                  None \<Rightarrow> ValueError (''incorrectly formatted node label: '' @ l)
                | Some (p, n) \<Rightarrow> InvalidLiteral n)"
proof -
  have "parse_labels (nodes g) [] =
           Inl (case re_search_label l of
                  None \<Rightarrow> ValueError (''incorrectly formatted node label: '' @ l)
                | Some (p, n) \<Rightarrow> InvalidLiteral n)"
    unfolding assms(2)
    using assms(3) parse_label_error[OF assms(4)] by (rule parse_labels_first_error)
  then show ?thesis using assms(1) by (simp add: validate_def)
qed

lemma set_indices: "set (indices g p) = {k. (p, k) \<in> set (parsed_labels (nodes g))}"
  by (force simp: indices_def)

lemma node_dict_of_graph:
  assumes "list_all label_ok (nodes g)"
  shows "\<exists>nd. parse_labels (nodes g) [] = Inr nd \<and> distinct (map fst nd) \<and>
           set (map fst nd) = set (prefixes g) \<and> length nd = length (prefixes g) \<and>
           (\<forall>p. idx_set nd p = set (indices g p))"
proof -
  from parse_labels_Inr[OF assms, of "[]"] obtain nd where
    run: "parse_labels (nodes g) [] = Inr nd"
    and dom: "fst ` set nd = fst ` set (parsed_labels (nodes g))"
    and dist: "distinct (map fst nd)"
    and idx: "\<forall>p. idx_set nd p = {k. (p, k) \<in> set (parsed_labels (nodes g))}"
    by (auto simp: idx_set_def)
  have keys: "set (map fst nd) = set (prefixes g)"
    using dom by (simp add: prefixes_def)
  have "length nd = card (set (map fst nd))"
    using distinct_card[OF dist] by simp
  also have "\<dots> = card (set (prefixes g))" by (simp only: keys)
  also have "\<dots> = length (prefixes g)"
    by (simp add: prefixes_def distinct_card del: set_remdups)
  finally have "length nd = length (prefixes g)" .
  with run dist keys idx show ?thesis by (simp add: set_indices)
qed

lemma validate_prefix_error:
  assumes "is_bipartite g" and "list_all label_ok (nodes g)" and "length (prefixes g) \<noteq> 2"
  shows "validate g ct = Inl (ValueError ''incorrectly formatted graph'')"
proof -
  from node_dict_of_graph[OF assms(2)] obtain nd where
    run: "parse_labels (nodes g) [] = Inr nd" and len: "length nd = length (prefixes g)"
    by blast
  have "length nd \<noteq> 2" using len assms(3) by simp
  then show ?thesis
    using assms(1) run
    by (auto simp: validate_def split: list.splits prod.splits)
qed

lemma two_populations:
  assumes "list_all label_ok (nodes g)" and "length (prefixes g) = 2"
  shows "\<exists>a sa b sb. parse_labels (nodes g) [] = Inr [(a, sa), (b, sb)] \<and> a \<noteq> b \<and>
           set (prefixes g) = {a, b} \<and> sa \<noteq> [] \<and> sb \<noteq> [] \<and>
           set sa = set (indices g a) \<and> set sb = set (indices g b)"
proof -
  from node_dict_of_graph[OF assms(1)] obtain nd where
    run: "parse_labels (nodes g) [] = Inr nd" and dist: "distinct (map fst nd)"
    and keys: "set (map fst nd) = set (prefixes g)" and len: "length nd = length (prefixes g)"
    and idx: "\<forall>p. idx_set nd p = set (indices g p)"
    by blast
  from len assms(2) have "length nd = 2" by simp
  then obtain x y where nd: "nd = [x, y]"
    by (cases nd; cases "tl nd") auto
  obtain a sa b sb where x: "x = (a, sa)" and y: "y = (b, sb)" by (cases x; cases y)
  have ab: "a \<noteq> b" using dist nd x y by simp
  have sa: "set sa = set (indices g a)" and sb: "set sb = set (indices g b)"
    using idx[rule_format, of a] idx[rule_format, of b] ab nd x y
    by (simp_all add: idx_set_def)
  have pre: "set (prefixes g) = {a, b}" using keys nd x y by auto
  have ne: "indices g p \<noteq> []" if "p \<in> set (prefixes g)" for p
  proof -
    from that obtain k where "(p, k) \<in> set (parsed_labels (nodes g))"
      by (auto simp: prefixes_def)
    then have "k \<in> set (indices g p)" by (simp add: set_indices)
    then show ?thesis by auto
  qed
  have "sa \<noteq> []" "sb \<noteq> []"
    using ne[of a] ne[of b] pre sa sb by auto
  with run nd x y ab pre sa sb show ?thesis by blast
qed

lemma validate_gap_error:
  assumes "is_bipartite g" and "list_all label_ok (nodes g)" and "length (prefixes g) = 2"
    and "p \<in> set (prefixes g)" and "gap (indices g p)"
  shows "validate g ct = Inl (ValueError ''nodes must be numbered consecutively from 0..N'')"
proof -
  from two_populations[OF assms(2,3)] obtain a sa b sb where
    run: "parse_labels (nodes g) [] = Inr [(a, sa), (b, sb)]"
    and pre: "set (prefixes g) = {a, b}" and ne: "sa \<noteq> []" "sb \<noteq> []"
    and sa: "set sa = set (indices g a)" and sb: "set sb = set (indices g b)"
    by blast
  have ca: "consecutive sa = Inr (\<not> gap (indices g a))"
    using consecutive_gap[OF ne(1)] gap_cong[OF sa] by simp
  have cb: "consecutive sb = Inr (\<not> gap (indices g b))"
    using consecutive_gap[OF ne(2)] gap_cong[OF sb] by simp
  have either: "gap (indices g a) \<or> gap (indices g b)"
    using assms(4,5) pre by auto
  show ?thesis
  proof (cases "gap (indices g a)")
    case True
    then show ?thesis using assms(1) by (simp add: validate_def run ca)
  next
    case False
    with either have "gap (indices g b)" by simp
    with False show ?thesis using assms(1) by (simp add: validate_def run ca cb)
  qed
qed





lemma graph_to_conn_invalid: "validate g ct = Inl e \<Longrightarrow> graph_to_conn fl g ct = Inl e"
  by (simp add: graph_to_conn_def)




text \<open>
  Claim C7 (population ids are counted), as the source has it: for a graph that passes
  the library's bipartiteness test and whose labels all parse, a number of distinct
  population ids other than two makes the decoder raise \<^verbatim>\<open>'incorrectly formatted graph'\<close>.
\<close>

theorem graph_to_conn_prefix_count:
  assumes "is_bipartite g" and "list_all label_ok (nodes g)" and "length (prefixes g) \<noteq> 2"
  shows "graph_to_conn fl g ct = Inl (ValueError ''incorrectly formatted graph'')"
  by (rule graph_to_conn_invalid[OF validate_prefix_error[OF assms]])

theorem graph_to_conn_prefix_count_witness:
  "is_bipartite three_prefixes \<and> list_all label_ok (nodes three_prefixes) \<and>
   length (prefixes three_prefixes) = 3 \<and>
   graph_to_conn no_float three_prefixes BaseConnectivityT =
     Inl (ValueError ''incorrectly formatted graph'')"
proof -
  have a: "is_bipartite three_prefixes" "list_all label_ok (nodes three_prefixes)"
    and l: "length (prefixes three_prefixes) = 3"
    by code_simp+
  from l have n: "length (prefixes three_prefixes) \<noteq> 2" by simp
  from graph_to_conn_prefix_count[OF a n] a l show ?thesis by blast
qed

text \<open>
  The claim as stated says that only the ids are counted and no bipartiteness search
  is run. The directed triangle on \<^verbatim>\<open>A:0\<close>, \<^verbatim>\<open>B:0\<close>, \<^verbatim>\<open>C:0\<close> has three ids, and
  the error it gets is the one of the library's search.
\<close>

theorem graph_to_conn_prefix_count_counterexample:
  "list_all label_ok (nodes triangle) \<and> length (prefixes triangle) = 3 \<and>
   graph_to_conn no_float triangle BaseConnectivityT =
     Inl (ValueError ''graph must be bipartite'')"
proof -
  have "list_all label_ok (nodes triangle)" "length (prefixes triangle) = 3"
    by code_simp+
  moreover have "graph_to_conn no_float triangle BaseConnectivityT =
     Inl (ValueError ''graph must be bipartite'')"
    by (rule sum_eq_InlI; code_simp)
  ultimately show ?thesis by simp
qed

text \<open>
  Claim C8 (consecutive numbering), as the source has it: for a graph that passes the
  bipartiteness test, whose labels all parse and which has exactly two population ids,
  a gap in the indices of either population makes the decoder raise
  \<^verbatim>\<open>'nodes must be numbered consecutively from 0..N'\<close>.
\<close>

theorem graph_to_conn_gap:
  assumes "is_bipartite g" and "list_all label_ok (nodes g)" and "length (prefixes g) = 2"
    and "p \<in> set (prefixes g)" and "gap (indices g p)"
  shows "graph_to_conn fl g ct =
           Inl (ValueError ''nodes must be numbered consecutively from 0..N'')"
  by (rule graph_to_conn_invalid[OF validate_gap_error[OF assms]])

theorem graph_to_conn_gap_witness:
  "is_bipartite gap_two_populations \<and> list_all label_ok (nodes gap_two_populations) \<and>
   length (prefixes gap_two_populations) = 2 \<and> ''A'' \<in> set (prefixes gap_two_populations) \<and>
   gap (indices gap_two_populations ''A'') \<and>
   graph_to_conn no_float gap_two_populations BaseConnectivityT =
     Inl (ValueError ''nodes must be numbered consecutively from 0..N'')"
proof -
  have a: "is_bipartite gap_two_populations" "list_all label_ok (nodes gap_two_populations)"
    "length (prefixes gap_two_populations) = 2" "''A'' \<in> set (prefixes gap_two_populations)"
    "gap (indices gap_two_populations ''A'')"
    by code_simp+
  from graph_to_conn_gap[OF a] a show ?thesis by blast
qed

text \<open>
  The claim as stated holds for every graph with a gap. The graph with the nodes
  \<^verbatim>\<open>A:0\<close> and \<^verbatim>\<open>A:2\<close> alone has a gap and one population id only, and the count of
  the ids is checked first.
\<close>

theorem graph_to_conn_gap_counterexample:
  "indices gap_one_population ''A'' = [0, 2] \<and>
   graph_to_conn no_float gap_one_population BaseConnectivityT =
     Inl (ValueError ''incorrectly formatted graph'')"
proof -
  have "indices gap_one_population ''A'' = [0, 2]" by code_simp
  moreover have "graph_to_conn no_float gap_one_population BaseConnectivityT =
     Inl (ValueError ''incorrectly formatted graph'')"
    by (rule sum_eq_InlI; code_simp)
  ultimately show ?thesis by simp
qed

text \<open>
  Claim C9 (malformed labels), as the source has it: in a graph that passes the
  bipartiteness test, the first node in iteration order whose label does not parse
  decides the error. It is \<^verbatim>\<open>'incorrectly formatted node label: '\<close> followed by the
  label when the pattern \<^verbatim>\<open>(.+):(.+)\<close> has no match, and the \<^verbatim>\<open>ValueError\<close> of
  \<^verbatim>\<open>int()\<close> when the second group is no integer.
\<close>

theorem graph_to_conn_label_error:
  assumes "is_bipartite g" and "nodes g = ls1 @ l # ls2" and "list_all label_ok ls1"
    and "\<not> label_ok l"
  shows "graph_to_conn fl g ct =
           Inl (case re_search_label l of
                  None \<Rightarrow> ValueError (''incorrectly formatted node label: '' @ l)
                | Some (p, n) \<Rightarrow> InvalidLiteral n)"
  by (rule graph_to_conn_invalid[OF validate_label_error[OF assms]])

theorem graph_to_conn_label_error_witness:
  "is_bipartite bad_label \<and> nodes bad_label = [''A:0''] @ ''B'' # [''C:5''] \<and>
   list_all label_ok [''A:0''] \<and> \<not> label_ok ''B'' \<and>
   graph_to_conn no_float bad_label BaseConnectivityT =
     Inl (ValueError ''incorrectly formatted node label: B'')"
proof -
  have a: "is_bipartite bad_label" "nodes bad_label = [''A:0''] @ ''B'' # [''C:5'']"
    "list_all label_ok [''A:0'']" "\<not> label_ok ''B''"
    by code_simp+
  have r: "re_search_label ''B'' = None" by code_simp
  have "graph_to_conn no_float bad_label BaseConnectivityT =
     Inl (ValueError ''incorrectly formatted node label: B'')"
    using graph_to_conn_label_error[OF a, of no_float BaseConnectivityT] by (simp add: r)
  with a show ?thesis by blast
qed

text \<open>
  The claim as stated asks for a non-negative index. The label \<^verbatim>\<open>A:-1\<close> parses, to
  the index \<open>-1\<close>; the graph is rejected later, by the numbering check.
\<close>

theorem graph_to_conn_label_error_counterexample:
  "parse_label ''A:-1'' = Inr (''A'', - 1) \<and>
   graph_to_conn no_float negative_index BaseConnectivityT =
     Inl (ValueError ''nodes must be numbered consecutively from 0..N'')"
proof -
  have "parse_label ''A:-1'' = Inr (''A'', - 1)" by code_simp
  moreover have "graph_to_conn no_float negative_index BaseConnectivityT =
     Inl (ValueError ''nodes must be numbered consecutively from 0..N'')"
    by (rule sum_eq_InlI; code_simp)
  ultimately show ?thesis by simp
qed


section \<open>The conversions of attribute values\<close>






section \<open>The loops that fill the connectivity object\<close>

lemma data_setitem: "data (setitem c k v) k' = (if k' = k then v else data c k')"
  by (cases k) (simp add: setitem_def)

lemma sizes_setitem:
  "N_mult (setitem c k v) = N_mult c" "N_A (setitem c k v) = N_A c"
  "N_B (setitem c k v) = N_B c" "A_id (setitem c k v) = A_id c" "B_id (setitem c k v) = B_id c"
  by (cases k; simp add: setitem_def)+

lemma not_isl_iff: "\<not> isl r \<longleftrightarrow> (\<exists>x. r = Inr x)"
  by (cases r) auto

lemma dict_coercible_iff:
  "dict_coercible fl d \<longleftrightarrow>
     (\<forall>name\<in>set (map fst d). \<exists>v x. map_of d name = Some v \<and> coerce fl name v = Inr x)"
  unfolding dict_coercible_def list_all_iff
  by (auto simp: not_isl_iff split: option.splits)

lemma slots_ok_iff:
  "slots_ok fl ed ps \<longleftrightarrow>
     (\<forall>(s, k)\<in>set ps. \<exists>d. map_of ed k = Some d \<and> dict_coercible fl d)"
  unfolding slots_ok_def list_all_iff
  by (auto split: option.splits)

lemma set_params_step:
  "map_of d param = Some v \<Longrightarrow> coerce fl param v = Inr x \<Longrightarrow>
   set_params fl (a, i, b, j, s) d (param # ps) c =
     set_params fl (a, i, b, j, s) d ps (setitem c (a, i, b, j, int s, param) x)"
  by (auto simp: coerce_def split: sum.splits if_splits)

lemma set_params_head:
  assumes "set_params fl (a, i, b, j, s) d (param # ps) c = Inr c'"
  shows "\<exists>v x. map_of d param = Some v \<and> coerce fl param v = Inr x"
proof -
  from assms obtain v where v: "map_of d param = Some v"
    by (cases "map_of d param") auto
  show ?thesis
  proof (cases "coerce fl param v")
    case (Inr x)
    with v show ?thesis by blast
  next
    case (Inl e)
    then have "set_params fl (a, i, b, j, s) d (param # ps) c = Inl e"
      using v by (auto simp: coerce_def split: sum.splits if_splits)
    with assms show ?thesis by simp
  qed
qed

lemma set_params_Inr:
  "set_params fl (a, i, b, j, s) d names c = Inr c' \<Longrightarrow>
   \<forall>name\<in>set names. \<exists>v x. map_of d name = Some v \<and> coerce fl name v = Inr x"
proof (induction names arbitrary: c)
  case Nil
  then show ?case by simp
next
  case (Cons param ps)
  from set_params_head[OF Cons.prems] obtain v x where
    v: "map_of d param = Some v" and x: "coerce fl param v = Inr x" by blast
  from Cons.prems have
    "set_params fl (a, i, b, j, s) d ps (setitem c (a, i, b, j, int s, param) x) = Inr c'"
    by (simp only: set_params_step[OF v x])
  from Cons.IH[OF this] v x show ?case by auto
qed

lemma set_params_data:
  assumes "\<forall>name\<in>set names. \<exists>v x. map_of d name = Some v \<and> coerce fl name v = Inr x"
  shows "\<exists>c'. set_params fl (a, i, b, j, s) d names c = Inr c' \<and> N_mult c' = N_mult c \<and>
           N_A c' = N_A c \<and> N_B c' = N_B c \<and> A_id c' = A_id c \<and> B_id c' = B_id c \<and>
           (\<forall>a' i' b' j' z name. data c' (a', i', b', j', z, name) =
              (if (a', i', b', j', z) = (a, i, b, j, int s) \<and> name \<in> set names
               then val_of fl d name else data c (a', i', b', j', z, name)))"
  using assms
proof (induction names arbitrary: c)
  case Nil
  then show ?case by simp
next
  case (Cons param ps)
  from Cons.prems obtain v x where v: "map_of d param = Some v" and x: "coerce fl param v = Inr x"
    by auto
  let ?c1 = "setitem c (a, i, b, j, int s, param) x"
  have "\<forall>name\<in>set ps. \<exists>v x. map_of d name = Some v \<and> coerce fl name v = Inr x"
    using Cons.prems by simp
  from Cons.IH[OF this, of ?c1] obtain c' where
    run: "set_params fl (a, i, b, j, s) d ps ?c1 = Inr c'"
    and sz: "N_mult c' = N_mult ?c1" "N_A c' = N_A ?c1" "N_B c' = N_B ?c1"
      "A_id c' = A_id ?c1" "B_id c' = B_id ?c1"
    and dat: "\<forall>a' i' b' j' z name. data c' (a', i', b', j', z, name) =
              (if (a', i', b', j', z) = (a, i, b, j, int s) \<and> name \<in> set ps
               then val_of fl d name else data ?c1 (a', i', b', j', z, name))"
    by blast
  have vx: "val_of fl d param = x" by (simp add: val_of_def v x)
  have "set_params fl (a, i, b, j, s) d (param # ps) c = Inr c'"
    by (simp only: set_params_step[OF v x] run)
  moreover have "\<forall>a' i' b' j' z name. data c' (a', i', b', j', z, name) =
              (if (a', i', b', j', z) = (a, i, b, j, int s) \<and> name \<in> set (param # ps)
               then val_of fl d name else data c (a', i', b', j', z, name))"
    by (auto simp: dat data_setitem vx)
  ultimately show ?case using sz by (simp add: sizes_setitem)
qed


lemma written_Cons:
  "written fl ed ((s, k) # rest) s' name =
     (if s' = s then (case map_of ed k of None \<Rightarrow> None | Some d \<Rightarrow> slot_val fl d name)
      else written fl ed rest s' name)"
  by (simp add: written_def)

lemma written_absent:
  assumes "s \<notin> fst ` set ps"
  shows "written fl ed ps s name = None"
proof -
  have "map_of ps s = None" using assms by (simp add: map_of_eq_None_iff)
  then show ?thesis by (simp add: written_def)
qed

lemma set_conns_Inr:
  "set_conns fl (a, i, b, j) ed ps c = Inr c' \<Longrightarrow> slots_ok fl ed ps"
proof (induction ps arbitrary: c)
  case Nil
  then show ?case by (simp add: slots_ok_def)
next
  case (Cons sk rest)
  obtain s k where sk: "sk = (s, k)" by (cases sk)
  from Cons.prems sk obtain d where d: "map_of ed k = Some d"
    by (cases "map_of ed k") auto
  from Cons.prems sk d obtain c2 where
    p: "set_params fl (a, i, b, j, s) d (map fst d)
          (setitem c (a, i, b, j, int s, ''conn'') (PyInt 1)) = Inr c2"
    and r: "set_conns fl (a, i, b, j) ed rest c2 = Inr c'"
    by (auto split: sum.splits)
  have "dict_coercible fl d"
    unfolding dict_coercible_iff by (rule set_params_Inr[OF p])
  moreover have "slots_ok fl ed rest" by (rule Cons.IH[OF r])
  ultimately show ?case using d sk by (simp add: slots_ok_def)
qed

lemma set_conns_data:
  assumes "slots_ok fl ed ps" and "distinct (map fst ps)"
  shows "\<exists>c'. set_conns fl (a, i, b, j) ed ps c = Inr c' \<and> N_mult c' = N_mult c \<and>
           N_A c' = N_A c \<and> N_B c' = N_B c \<and> A_id c' = A_id c \<and> B_id c' = B_id c \<and>
           (\<forall>a' i' b' j' z name. data c' (a', i', b', j', z, name) =
              (if (a', i', b', j') = (a, i, b, j) \<and> 0 \<le> z
               then (case written fl ed ps (nat z) name of
                       Some x \<Rightarrow> x | None \<Rightarrow> data c (a', i', b', j', z, name))
               else data c (a', i', b', j', z, name)))"
  using assms
proof (induction ps arbitrary: c)
  case Nil
  then show ?case by (simp add: written_def)
next
  case (Cons sk rest)
  obtain s k where sk: "sk = (s, k)" by (cases sk)
  from Cons.prems(1) sk obtain d where d: "map_of ed k = Some d" and ok: "dict_coercible fl d"
    by (auto simp: slots_ok_iff)
  let ?c1 = "setitem c (a, i, b, j, int s, ''conn'') (PyInt 1)"
  from set_params_data[OF ok[unfolded dict_coercible_iff], of a i b j s ?c1] obtain c2 where
    p: "set_params fl (a, i, b, j, s) d (map fst d) ?c1 = Inr c2"
    and sz2: "N_mult c2 = N_mult ?c1" "N_A c2 = N_A ?c1" "N_B c2 = N_B ?c1"
      "A_id c2 = A_id ?c1" "B_id c2 = B_id ?c1"
    and d2: "\<forall>a' i' b' j' z name. data c2 (a', i', b', j', z, name) =
              (if (a', i', b', j', z) = (a, i, b, j, int s) \<and> name \<in> set (map fst d)
               then val_of fl d name else data ?c1 (a', i', b', j', z, name))"
    by blast
  have rest_ok: "slots_ok fl ed rest"
    and rest_d: "distinct (map fst rest)" and fresh: "s \<notin> fst ` set rest"
    using Cons.prems sk by (auto simp: slots_ok_def)
  from Cons.IH[OF rest_ok rest_d, of c2] obtain c' where
    run: "set_conns fl (a, i, b, j) ed rest c2 = Inr c'"
    and sz: "N_mult c' = N_mult c2" "N_A c' = N_A c2" "N_B c' = N_B c2"
      "A_id c' = A_id c2" "B_id c' = B_id c2"
    and dat: "\<forall>a' i' b' j' z name. data c' (a', i', b', j', z, name) =
              (if (a', i', b', j') = (a, i, b, j) \<and> 0 \<le> z
               then (case written fl ed rest (nat z) name of
                       Some x \<Rightarrow> x | None \<Rightarrow> data c2 (a', i', b', j', z, name))
               else data c2 (a', i', b', j', z, name))"
    by blast
  have "set_conns fl (a, i, b, j) ed (sk # rest) c = Inr c'"
    by (simp add: sk d p run)
  moreover have "data c' (a', i', b', j', z, name) =
              (if (a', i', b', j') = (a, i, b, j) \<and> 0 \<le> z
               then (case written fl ed (sk # rest) (nat z) name of
                       Some x \<Rightarrow> x | None \<Rightarrow> data c (a', i', b', j', z, name))
               else data c (a', i', b', j', z, name))" for a' i' b' j' z name
  proof (cases "(a', i', b', j') = (a, i, b, j) \<and> 0 \<le> z")
    case False
    then have "z \<noteq> int s \<or> (a', i', b', j') \<noteq> (a, i, b, j)" by auto
    with False show ?thesis by (auto simp: dat d2 data_setitem)
  next
    case True
    show ?thesis
    proof (cases "nat z = s")
      case False
      then have "z \<noteq> int s" by auto
      with True False show ?thesis
        by (simp add: dat d2 data_setitem sk written_Cons split: option.splits)
    next
      case same: True
      then have zs: "z = int s" using True by auto
      have w: "written fl ed rest s n = None" for n
        using fresh by (simp add: written_absent)
      have "data c' (a', i', b', j', z, name) = data c2 (a, i, b, j, int s, name)"
        using True zs by (simp add: dat w)
      also have "\<dots> = (case slot_val fl d name of
                         Some x \<Rightarrow> x | None \<Rightarrow> data c (a, i, b, j, int s, name))"
        by (simp add: d2 data_setitem slot_val_def)
      finally show ?thesis
        using True zs by (auto simp: sk written_Cons d split: option.splits)
    qed
  qed
  ultimately show ?case using sz sz2 by (simp add: sizes_setitem)
qed




lemma canonical_inj:
  "canonical u \<Longrightarrow> canonical u' \<Longrightarrow> parse_end u = parse_end u' \<Longrightarrow> u = u'"
  by (auto simp: canonical_def split: sum.splits)

lemma canonical_parse: "canonical u \<Longrightarrow> \<exists>a i. parse_end u = Inr (a, i)"
  by (auto simp: canonical_def split: sum.splits)


lemma edge_pairs_canonical:
  assumes "canonical_ends g" and "(u, v) \<in> set (edge_pairs g)"
  shows "canonical u" and "canonical v"
proof -
  from assms(2) obtain k d where "(u, v, k, d) \<in> set (edges g)"
    by (auto simp: edge_pairs_def)
  then have "canonical u \<and> canonical v"
    using assms(1) by (auto simp: canonical_ends_def list_all_iff)
  then show "canonical u" and "canonical v" by simp_all
qed


lemma set_edges_Inr:
  "set_edges fl g es c = Inr c' \<Longrightarrow> \<forall>(u, v)\<in>set es. pair_ok fl g u v"
proof (induction es arbitrary: c)
  case Nil
  then show ?case by simp
next
  case (Cons e es)
  obtain u v where e: "e = (u, v)" by (cases e)
  from Cons.prems e obtain a i where pu: "parse_end u = Inr (a, i)"
    by (cases "parse_end u") auto
  from Cons.prems e pu obtain b j where pv: "parse_end v = Inr (b, j)"
    by (cases "parse_end v") auto
  from Cons.prems e pu pv obtain c1 where
    r1: "set_conns fl (a, i, b, j) (edge_dict g u v)
           (enumerate 0 (map fst (edge_dict g u v))) c = Inr c1"
    and r2: "set_edges fl g es c1 = Inr c'"
    by (auto split: sum.splits)
  have "pair_ok fl g u v" unfolding pair_ok_def by (rule set_conns_Inr[OF r1])
  with Cons.IH[OF r2] e show ?case by simp
qed

lemma set_edges_data:
  assumes ok: "canonical_ends g" and sub: "set es \<subseteq> set (edge_pairs g)"
    and pok: "\<forall>(u, v)\<in>set es. pair_ok fl g u v"
  shows "\<exists>c'. set_edges fl g es c = Inr c' \<and> N_mult c' = N_mult c \<and>
           N_A c' = N_A c \<and> N_B c' = N_B c \<and> A_id c' = A_id c \<and> B_id c' = B_id c \<and>
           (\<forall>u v a i b j s name x. (u, v) \<in> set es \<longrightarrow>
               parse_end u = Inr (a, i) \<longrightarrow> parse_end v = Inr (b, j) \<longrightarrow>
               pair_written fl g u v s name = Some x \<longrightarrow>
               data c' (a, i, b, j, int s, name) = x) \<and>
           (\<forall>a i b j z name.
               (\<forall>u v. (u, v) \<in> set es \<longrightarrow>
                  parse_end u = Inr (a, i) \<longrightarrow> parse_end v = Inr (b, j) \<longrightarrow> 0 \<le> z \<longrightarrow>
                  pair_written fl g u v (nat z) name = None) \<longrightarrow>
               data c' (a, i, b, j, z, name) = data c (a, i, b, j, z, name))"
  using sub pok
proof (induction es arbitrary: c)
  case Nil
  then show ?case by simp
next
  case (Cons e es)
  obtain u v where e: "e = (u, v)" by (cases e)
  have uv: "(u, v) \<in> set (edge_pairs g)" using Cons.prems e by simp
  note cu = edge_pairs_canonical(1)[OF ok uv] and cv = edge_pairs_canonical(2)[OF ok uv]
  from canonical_parse[OF cu] canonical_parse[OF cv] obtain a i b j where
    pu: "parse_end u = Inr (a, i)" and pv: "parse_end v = Inr (b, j)" by blast
  let ?ed = "edge_dict g u v"
  have dist: "distinct (map fst (enumerate 0 (map fst ?ed)))" by simp
  have sok: "slots_ok fl ?ed (enumerate 0 (map fst ?ed))"
    using Cons.prems(2) e by (simp add: pair_ok_def)
  from set_conns_data[OF sok dist, of a i b j c] obtain c1 where
    r1: "set_conns fl (a, i, b, j) ?ed (enumerate 0 (map fst ?ed)) c = Inr c1"
    and sz1: "N_mult c1 = N_mult c" "N_A c1 = N_A c" "N_B c1 = N_B c"
      "A_id c1 = A_id c" "B_id c1 = B_id c"
    and d1: "\<forall>a' i' b' j' z name. data c1 (a', i', b', j', z, name) =
              (if (a', i', b', j') = (a, i, b, j) \<and> 0 \<le> z
               then (case pair_written fl g u v (nat z) name of
                       Some x \<Rightarrow> x | None \<Rightarrow> data c (a', i', b', j', z, name))
               else data c (a', i', b', j', z, name))"
    unfolding pair_written_def by blast
  have sub': "set es \<subseteq> set (edge_pairs g)" using Cons.prems by simp
  have pok': "\<forall>(u, v)\<in>set es. pair_ok fl g u v" using Cons.prems by simp
  from Cons.IH[OF sub' pok', of c1] obtain c' where
    run: "set_edges fl g es c1 = Inr c'"
    and sz: "N_mult c' = N_mult c1" "N_A c' = N_A c1" "N_B c' = N_B c1"
      "A_id c' = A_id c1" "B_id c' = B_id c1"
    and hit: "\<forall>u v a i b j s name x. (u, v) \<in> set es \<longrightarrow>
               parse_end u = Inr (a, i) \<longrightarrow> parse_end v = Inr (b, j) \<longrightarrow>
               pair_written fl g u v s name = Some x \<longrightarrow>
               data c' (a, i, b, j, int s, name) = x"
    and miss: "\<forall>a i b j z name.
               (\<forall>u v. (u, v) \<in> set es \<longrightarrow>
                  parse_end u = Inr (a, i) \<longrightarrow> parse_end v = Inr (b, j) \<longrightarrow> 0 \<le> z \<longrightarrow>
                  pair_written fl g u v (nat z) name = None) \<longrightarrow>
               data c' (a, i, b, j, z, name) = data c1 (a, i, b, j, z, name)"
    by blast
  have same: "u' = u \<and> v' = v"
    if "(u', v') \<in> set (edge_pairs g)" "parse_end u' = Inr (a, i)" "parse_end v' = Inr (b, j)"
    for u' v'
    using that canonical_inj[OF edge_pairs_canonical(1)[OF ok that(1)] cu]
      canonical_inj[OF edge_pairs_canonical(2)[OF ok that(1)] cv] pu pv by simp
  have "set_edges fl g (e # es) c = Inr c'"
    by (simp add: e pu pv r1 run)
  moreover have "data c' (a', i', b', j', int s, name) = x"
    if m: "(u', v') \<in> set (e # es)" and p: "parse_end u' = Inr (a', i')"
      "parse_end v' = Inr (b', j')" and w: "pair_written fl g u' v' s name = Some x"
    for u' v' a' i' b' j' s name x
  proof (cases "(u', v') \<in> set es")
    case True
    with hit p w show ?thesis by blast
  next
    case False
    with m e have eq: "u' = u" "v' = v" by auto
    then have q: "a' = a" "i' = i" "b' = b" "j' = j" using p pu pv by auto
    have "\<forall>u2 v2. (u2, v2) \<in> set es \<longrightarrow>
                  parse_end u2 = Inr (a, i) \<longrightarrow> parse_end v2 = Inr (b, j) \<longrightarrow> 0 \<le> int s \<longrightarrow>
                  pair_written fl g u2 v2 (nat (int s)) name = None"
    proof (intro allI impI)
      fix u2 v2 assume "(u2, v2) \<in> set es" "parse_end u2 = Inr (a, i)"
        "parse_end v2 = Inr (b, j)"
      then have "u2 = u \<and> v2 = v" using same sub' by blast
      with \<open>(u2, v2) \<in> set es\<close> False eq
      show "pair_written fl g u2 v2 (nat (int s)) name = None" by simp
    qed
    with miss have "data c' (a, i, b, j, int s, name) = data c1 (a, i, b, j, int s, name)"
      by blast
    also have "\<dots> = x" using w eq by (simp add: d1)
    finally show ?thesis using q by simp
  qed
  moreover have "data c' (a', i', b', j', z, name) = data c (a', i', b', j', z, name)"
    if none: "\<forall>u' v'. (u', v') \<in> set (e # es) \<longrightarrow>
                  parse_end u' = Inr (a', i') \<longrightarrow> parse_end v' = Inr (b', j') \<longrightarrow> 0 \<le> z \<longrightarrow>
                  pair_written fl g u' v' (nat z) name = None"
    for a' i' b' j' z name
  proof -
    from none have "\<forall>u' v'. (u', v') \<in> set es \<longrightarrow>
                  parse_end u' = Inr (a', i') \<longrightarrow> parse_end v' = Inr (b', j') \<longrightarrow> 0 \<le> z \<longrightarrow>
                  pair_written fl g u' v' (nat z) name = None" by simp
    with miss have "data c' (a', i', b', j', z, name) = data c1 (a', i', b', j', z, name)"
      by blast
    also have "\<dots> = data c (a', i', b', j', z, name)"
    proof (cases "(a', i', b', j') = (a, i, b, j) \<and> 0 \<le> z")
      case True
      with none e pu pv have "pair_written fl g u v (nat z) name = None" by simp
      with True show ?thesis by (simp add: d1)
    next
      case False
      then show ?thesis by (auto simp: d1)
    qed
    finally show ?thesis .
  qed
  ultimately show ?case using sz sz1 by (simp only:) blast
qed


lemma decode_Inr:
  assumes "graph_to_conn fl g ct = Inr c"
  shows "\<not> isl (validate g ct)" and "\<forall>(u, v)\<in>set (edge_pairs g). pair_ok fl g u v"
proof -
  from assms obtain c0 where c0: "validate g ct = Inr c0"
    and run: "set_edges fl g (edge_pairs g) c0 = Inr c"
    by (auto simp: graph_to_conn_def split: sum.splits)
  show "\<not> isl (validate g ct)" by (simp add: c0)
  show "\<forall>(u, v)\<in>set (edge_pairs g). pair_ok fl g u v" by (rule set_edges_Inr[OF run])
qed




section \<open>The slots of the parallel edges\<close>






section \<open>The coercion of the attribute values\<close>







section \<open>The multiplicity of the decoded model\<close>

text \<open>
  When the decoder returns a model the graph has an edge, and \<open>N_mult\<close> of the model is
  the largest number of parallel edges of a node pair.
\<close>

lemma validate_Inr_N_mult:
  "validate g ct = Inr c0 \<Longrightarrow>
   py_max (map (\<lambda>(u, v). length (edge_dict g u v)) (remdups (edge_pairs g))) = Inr (N_mult c0)"
  by (auto simp: validate_def BaseConnectivity_def Connectivity_def
           split: if_splits sum.splits list.splits prod.splits bool.splits option.splits)

lemma graph_to_conn_N_mult:
  assumes run: "graph_to_conn fl g ct = Inr c" and ok: "canonical_ends g"
  shows "edges g \<noteq> [] \<and>
         N_mult c = Max ((\<lambda>(u, v). length (edge_dict g u v)) ` set (edge_pairs g))"
proof -
  from run obtain c0 where c0: "validate g ct = Inr c0"
    and r0: "set_edges fl g (edge_pairs g) c0 = Inr c"
    by (auto simp: graph_to_conn_def split: sum.splits)
  let ?ls = "map (\<lambda>(u, v). length (edge_dict g u v)) (remdups (edge_pairs g))"
  have mx: "py_max ?ls = Inr (N_mult c0)" using c0 by (rule validate_Inr_N_mult)
  then have ne: "?ls \<noteq> []" by auto
  then have e: "edges g \<noteq> []" by (auto simp: edge_pairs_def)
  from py_max_Max[OF ne] mx have "N_mult c0 = Max (set ?ls)" by simp
  then have n0: "N_mult c0 = Max ((\<lambda>(u, v). length (edge_dict g u v)) ` set (edge_pairs g))"
    by simp
  from set_edges_data[OF ok subset_refl decode_Inr(2)[OF run], of c0] r0
  have "N_mult c = N_mult c0" by auto
  with n0 e show ?thesis by simp
qed

end
